theory Spec2Isabelle
  imports Complex_Main
begin

section \<open>The falling-drops game of game.js\<close>

text \<open>
  The game keeps its state in a handful of variables of one closure and changes them from
  four kinds of callbacks: the animation frame (\<open>loop\<close>), the one-second interval timer,
  pointer events on the canvas, and the buttons and keys. The model below is a record of
  those variables and one function per callback, each taking the state and returning the
  new one.

  JavaScript numbers are modelled as exact numbers: \<open>real\<close> for positions, speeds,
  intervals and the water meter, \<open>int\<close> for the counters that only ever hold integers
  (score, lives, timeLeft). Rounding of IEEE doubles is not modelled. Every call of
  \<open>Math.random()\<close>, \<open>Date.now()\<close> and \<open>performance.now()\<close> is a parameter of the
  callback that makes it; \<open>Date.now()\<close> is read once per frame. Drawing, sounds, DOM
  text, particles and ripples are left out: no variable below is read from or written by
  them, except the in-place sort of \<open>drops\<close> in \<open>render\<close>, which is modelled. Canvas
  drawing calls are taken not to throw.
\<close>

subsection \<open>Difficulty table\<close>

datatype difficulty = Easy | Normal | Hard | Other

record settings =
  cfg_spawnInterval :: real
  cfg_spawnMin :: real
  cfg_spawnAccel :: real
  cfg_dropSpeed :: real
  cfg_roundTime :: int
  cfg_lives :: int

text \<open>
  \<open>difficultySettings[currentDifficulty]\<close>: the key comes from a button's
  \<open>data-difficulty\<close> attribute, so a key outside the table (\<open>Other\<close>) yields
  \<open>undefined\<close>, here \<open>None\<close>.
\<close>

fun difficultySettings :: "difficulty \<Rightarrow> settings option" where
  "difficultySettings Easy = Some \<lparr>cfg_spawnInterval = 950, cfg_spawnMin = 520,
      cfg_spawnAccel = 10, cfg_dropSpeed = 1.3, cfg_roundTime = 45, cfg_lives = 5\<rparr>"
| "difficultySettings Normal = Some \<lparr>cfg_spawnInterval = 650, cfg_spawnMin = 340,
      cfg_spawnAccel = 14, cfg_dropSpeed = 1.7, cfg_roundTime = 30, cfg_lives = 3\<rparr>"
| "difficultySettings Hard = Some \<lparr>cfg_spawnInterval = 420, cfg_spawnMin = 220,
      cfg_spawnAccel = 18, cfg_dropSpeed = 2.2, cfg_roundTime = 20, cfg_lives = 2\<rparr>"
| "difficultySettings Other = None"

text \<open>\<open>const roundTime = 30\<close>, the closure's own constant.\<close>

definition roundTime :: int where
  "roundTime = 30"

definition milestones :: "int list" where
  "milestones = [50, 100, 150]"

text \<open>\<open>v || d\<close> on numbers: the default replaces a zero (or a missing value).\<close>

definition orElse :: "'a::zero \<Rightarrow> 'a \<Rightarrow> 'a" where
  "orElse v d = (if v = 0 then d else v)"

definition optOrElse :: "settings option \<Rightarrow> (settings \<Rightarrow> 'a::zero) \<Rightarrow> 'a \<Rightarrow> 'a" where
  "optOrElse s f d = (case s of None \<Rightarrow> d | Some st \<Rightarrow> orElse (f st) d)"

subsection \<open>Drops and the game state\<close>

record trailpt =
  t_x :: real
  t_y :: real
  t_alpha :: real

record drop =
  d_x :: real
  d_y :: real
  d_size :: real
  d_speed :: real
  d_polluted :: bool
  d_vx :: real
  d_rotation :: real
  d_rotationSpeed :: real
  d_birth :: real
  d_gravity :: real
  d_drag :: real
  d_opacity :: real
  d_trail :: "trailpt list"

text \<open>
  \<open>timerId\<close> holds the handle of the interval started last; \<open>intervals\<close> are the
  handles the browser still fires, \<open>nextHandle\<close> the next fresh handle.
  \<open>framePending\<close> says that an animation frame requested through
  \<open>requestAnimationFrame\<close> has neither run nor been cancelled.
\<close>

record game =
  running :: bool
  paused :: bool
  drops :: "drop list"
  lastSpawn :: real
  spawnInterval :: real
  score :: int
  lives :: int
  waterPercent :: real
  timeLeft :: int
  timerId :: "nat option"
  intervals :: "nat list"
  nextHandle :: nat
  framePending :: bool
  lastFrame :: real
  currentDifficulty :: difficulty
  milestonesReached :: "int list"
  canvas_w :: real
  canvas_h :: real

text \<open>The values \<open>Math.random()\<close> returns during one spawn, in call order.\<close>

record rands =
  r_polluted :: real
  r_size :: real
  r_x :: real
  r_speed :: real
  r_vx :: real
  r_rotation :: real
  r_rotationSpeed :: real
  r_opacity :: real

definition unit_rands :: "rands \<Rightarrow> bool" where
  "unit_rands r = (list_all (\<lambda>v. 0 \<le> v \<and> v < 1)
     [r_polluted r, r_size r, r_x r, r_speed r, r_vx r, r_rotation r, r_rotationSpeed r,
      r_opacity r])"

record domrect =
  rect_left :: real
  rect_top :: real
  rect_width :: real
  rect_height :: real

subsection \<open>Canvas set-up\<close>

definition setupCanvas :: "domrect \<Rightarrow> game \<Rightarrow> game" where
  "setupCanvas rect g =
     g\<lparr>canvas_w := orElse (rect_width rect) 720, canvas_h := orElse (rect_height rect) 420\<rparr>"

subsection \<open>Creating and spawning drops\<close>

text \<open>
  \<open>rand(min, max)\<close>, in exact arithmetic: for \<open>r < 1\<close> the result stays below
  \<open>hi\<close>, whereas the rounding of doubles can return \<open>hi\<close> itself for the largest
  values of \<open>Math.random()\<close>. Bounds on \<open>rand\<close> are therefore stated with \<open>\<le>\<close>.
\<close>

definition rand :: "real \<Rightarrow> real \<Rightarrow> real \<Rightarrow> real" where
  "rand lo hi r = r * (hi - lo) + lo"

definition createDrop :: "bool \<Rightarrow> real \<Rightarrow> rands \<Rightarrow> game \<Rightarrow> drop" where
  "createDrop isPolluted dnow rnd g =
     (let speedMult = optOrElse (difficultySettings (currentDifficulty g)) cfg_dropSpeed 1;
          sz = (if isPolluted then rand 24 35 (r_size rnd) else rand 18 28 (r_size rnd));
          px = rand (sz * 2) (canvas_w g - sz * 2) (r_x rnd);
          sp = (if isPolluted then rand 40 60 (r_speed rnd) else rand 30 50 (r_speed rnd))
                 * speedMult
      in \<lparr>d_x = px, d_y = - sz * 2, d_size = sz, d_speed = sp,
          d_polluted = isPolluted,
          d_vx = rand (-5) 5 (r_vx rnd),
          d_rotation = rand 0 (pi * 2) (r_rotation rnd),
          d_rotationSpeed = rand (-0.03) 0.03 (r_rotationSpeed rnd),
          d_birth = dnow,
          d_gravity = (if isPolluted then 90 else 75) * speedMult,
          d_drag = 0.999,
          d_opacity = (if isPolluted then rand 0.8 1.0 (r_opacity rnd) else 1.0),
          d_trail = []\<rparr>)"

definition spawnDrop :: "real \<Rightarrow> rands \<Rightarrow> game \<Rightarrow> game" where
  "spawnDrop dnow rnd g =
     (let pollutedChance = min 0.28 (0.08 + real_of_int (30 - timeLeft g) * 0.006);
          isPolluted = (r_polluted rnd < pollutedChance)
      in g\<lparr>drops := drops g @ [createDrop isPolluted dnow rnd g]\<rparr>)"

subsection \<open>The per-frame update\<close>

text \<open>The body of the loop over the drops, up to the wind: motion, trail, wind.\<close>

definition fadeTrail :: "trailpt list \<Rightarrow> trailpt list" where
  "fadeTrail tr =
     filter (\<lambda>p. \<not> t_alpha p < 0.1) (map (\<lambda>p. p\<lparr>t_alpha := t_alpha p * 0.9\<rparr>) tr)"

definition moveDrop :: "real \<Rightarrow> real \<Rightarrow> drop \<Rightarrow> drop" where
  "moveDrop dt dnow d =
     (let sp = (d_speed d + d_gravity d * dt) * d_drag d;
          v1 = d_vx d * 0.996;
          ny = d_y d + sp * dt;
          nx = d_x d + v1 * dt;
          tr = (if \<not> d_polluted d \<and> length (d_trail d) < 3
                then d_trail d @ [\<lparr>t_x = nx, t_y = ny, t_alpha = 0.5\<rparr>] else d_trail d);
          wind = sin (dnow * 0.001 + nx * 0.01) * 5
      in d\<lparr>d_speed := sp, d_y := ny, d_x := nx,
           d_rotation := d_rotation d + d_rotationSpeed d,
           d_trail := fadeTrail tr, d_vx := v1 + wind * dt\<rparr>)"

text \<open>The test for a drop that has left the canvas through the bottom.\<close>

definition fellOff :: "real \<Rightarrow> drop \<Rightarrow> bool" where
  "fellOff h d = (d_y d - d_size d > h + 60)"

text \<open>The two wall tests, the second one seeing what the first one wrote.\<close>

definition bounce :: "real \<Rightarrow> drop \<Rightarrow> drop" where
  "bounce w d =
     (let d1 = (if d_x d - d_size d < 0
                then d\<lparr>d_x := d_size d, d_vx := \<bar>d_vx d\<bar> * 0.7\<rparr> else d)
      in if d_x d1 + d_size d1 > w
         then d1\<lparr>d_x := w - d_size d1, d_vx := - \<bar>d_vx d1\<bar> * 0.7\<rparr> else d1)"

text \<open>
  \<open>for(let i=drops.length-1;i>=0;i--)\<close>: the drops are visited from the last index
  to the first, so the tail of the list is swept before its head. A drop that fell
  off is spliced out, and the meter pays for it when the drop was clean.
\<close>

fun sweep :: "real \<Rightarrow> real \<Rightarrow> real \<Rightarrow> real \<Rightarrow> drop list \<Rightarrow> real \<Rightarrow> drop list \<times> real" where
  "sweep dt dnow w h [] wp = ([], wp)"
| "sweep dt dnow w h (d # ds) wp =
     (let (ds', wp') = sweep dt dnow w h ds wp;
          d' = moveDrop dt dnow d
      in if fellOff h d'
         then (ds', if \<not> d_polluted d' then max 0 (wp' - 1.2) else wp')
         else (bounce w d' # ds', wp'))"

text \<open>
  The first statement of \<open>update\<close>: when the spawn interval has passed, spawn a
  drop and recompute the interval from the settings of the current difficulty, with the
  defaults 700, 300, 12 and 30 for a difficulty outside the table.
\<close>

definition respawn :: "real \<Rightarrow> rands \<Rightarrow> game \<Rightarrow> game" where
  "respawn dnow rnd g =
     (if dnow - lastSpawn g > spawnInterval g
      then (let g1 = (spawnDrop dnow rnd g)\<lparr>lastSpawn := dnow\<rparr>;
                s = difficultySettings (currentDifficulty g1);
                base = optOrElse s cfg_spawnInterval 700;
                minI = optOrElse s cfg_spawnMin 300;
                accel = optOrElse s cfg_spawnAccel 12;
                elapsed = real_of_int (optOrElse s cfg_roundTime 30 - timeLeft g1)
            in g1\<lparr>spawnInterval := max minI (base - elapsed * accel)\<rparr>)
      else g)"

definition update :: "real \<Rightarrow> real \<Rightarrow> rands \<Rightarrow> game \<Rightarrow> game" where
  "update dt dnow rnd g =
     (let g1 = respawn dnow rnd g;
          (ds, wp) = sweep dt dnow (canvas_w g1) (canvas_h g1) (drops g1) (waterPercent g1)
      in g1\<lparr>drops := ds, waterPercent := wp\<rparr>)"

subsection \<open>Rendering and the main loop\<close>

text \<open>
  Of \<open>render\<close> only \<open>drops.sort((a,b)=> a.y - b.y)\<close> touches the game state: a
  stable sort by ascending \<open>y\<close>.
\<close>

definition render :: "game \<Rightarrow> game" where
  "render g = g\<lparr>drops := sort_key d_y (drops g)\<rparr>"

definition loop :: "real \<Rightarrow> real \<Rightarrow> rands \<Rightarrow> game \<Rightarrow> game" where
  "loop now dnow rnd g =
     (let dt = min 0.05 ((now - lastFrame g) / 1000);
          g1 = g\<lparr>lastFrame := now\<rparr>;
          g2 = (if \<not> paused g1 then update dt dnow rnd g1 else g1)
      in (render g2)\<lparr>framePending := True\<rparr>)"

subsection \<open>Timer\<close>

definition setInterval :: "game \<Rightarrow> game" where
  "setInterval g = g\<lparr>timerId := Some (nextHandle g), intervals := nextHandle g # intervals g,
                     nextHandle := Suc (nextHandle g)\<rparr>"

definition stopTimer :: "game \<Rightarrow> game" where
  "stopTimer g =
     (case timerId g of
        None \<Rightarrow> g\<lparr>timerId := None\<rparr>
      | Some h \<Rightarrow> g\<lparr>intervals := removeAll h (intervals g), timerId := None\<rparr>)"

definition endRound :: "game \<Rightarrow> game" where
  "endRound g = (stopTimer (g\<lparr>running := False, paused := False\<rparr>))\<lparr>framePending := False\<rparr>"

definition startTimer :: "game \<Rightarrow> game" where
  "startTimer g = setInterval (g\<lparr>timeLeft := roundTime\<rparr>)"

text \<open>The callback of the interval.\<close>

definition timerTick :: "game \<Rightarrow> game" where
  "timerTick g =
     (let g1 = g\<lparr>timeLeft := timeLeft g - 1\<rparr>
      in if timeLeft g1 \<le> 0 then endRound (g1\<lparr>timeLeft := 0\<rparr>) else g1)"

subsection \<open>Round control\<close>

definition checkGameOver :: "game \<Rightarrow> game" where
  "checkGameOver g = (if lives g \<le> 0 \<or> waterPercent g \<ge> 100 then endRound g else g)"

text \<open>
  \<open>startRound\<close> runs inside \<open>try\<close>: with a difficulty outside the table the first
  statement throws and nothing of the state has changed.
\<close>

definition startRound :: "real \<Rightarrow> domrect \<Rightarrow> game \<Rightarrow> game" where
  "startRound pnow rect g =
     (case difficultySettings (currentDifficulty g) of
        None \<Rightarrow> g
      | Some st \<Rightarrow>
          (let g1 = g\<lparr>spawnInterval := cfg_spawnInterval st, lives := cfg_lives st,
                       timeLeft := cfg_roundTime st, milestonesReached := [],
                       drops := [], lastSpawn := 0, running := True, paused := False,
                       score := 0, waterPercent := 0\<rparr>;
               g2 = startTimer (setupCanvas rect g1)
           in g2\<lparr>lastFrame := pnow, framePending := True\<rparr>))"

definition resetGame :: "domrect \<Rightarrow> game \<Rightarrow> game" where
  "resetGame rect g =
     (let g1 = stopTimer (g\<lparr>running := False, paused := False\<rparr>);
          g2 = g1\<lparr>drops := [], score := 0, lives := 3, waterPercent := 0,
                  timeLeft := roundTime, framePending := False\<rparr>
      in setupCanvas rect g2)"

definition pauseGame :: "game \<Rightarrow> game" where
  "pauseGame g = (if paused g \<or> \<not> running g then g else stopTimer (g\<lparr>paused := True\<rparr>))"

definition resumeGame :: "real \<Rightarrow> game \<Rightarrow> game" where
  "resumeGame pnow g =
     (if \<not> paused g then g else (startTimer (g\<lparr>paused := False\<rparr>))\<lparr>lastFrame := pnow\<rparr>)"

text \<open>The pause button and the P key run the same toggle.\<close>

definition togglePause :: "real \<Rightarrow> game \<Rightarrow> game" where
  "togglePause pnow g =
     (if \<not> running g \<and> \<not> paused g then g
      else if paused g then resumeGame pnow g else pauseGame g)"

definition visibilityHidden :: "game \<Rightarrow> game" where
  "visibilityHidden g = (if running g \<and> \<not> paused g then pauseGame g else g)"

text \<open>
  A difficulty button: the difficulty changes at once, the lives only between rounds.
  With a key outside the table, reading \<open>settings.lives\<close> throws after the difficulty
  has been stored.
\<close>

definition setDifficulty :: "difficulty \<Rightarrow> game \<Rightarrow> game" where
  "setDifficulty k g =
     (let g1 = g\<lparr>currentDifficulty := k\<rparr>
      in if \<not> running g1
         then (case difficultySettings k of None \<Rightarrow> g1 | Some st \<Rightarrow> g1\<lparr>lives := cfg_lives st\<rparr>)
         else g1)"

subsection \<open>Milestones\<close>

definition checkMilestones :: "game \<Rightarrow> game" where
  "checkMilestones g =
     fold (\<lambda>m g'. if score g' \<ge> m \<and> m \<notin> set (milestonesReached g')
                   then g'\<lparr>milestonesReached := milestonesReached g' @ [m]\<rparr> else g')
          milestones g"

subsection \<open>Pointer input\<close>

datatype pointer = Mouse real real | Touch "(real \<times> real) list"

text \<open>
  The tap in canvas coordinates. A touch event with an empty \<open>touches\<close> list makes
  \<open>evt.touches[0].clientX\<close> throw: \<open>None\<close>.
\<close>

definition tapPoint :: "pointer \<Rightarrow> domrect \<Rightarrow> game \<Rightarrow> (real \<times> real) option" where
  "tapPoint evt rect g =
     (let scale = (\<lambda>(cx, cy). ((cx - rect_left rect) * (canvas_w g / rect_width rect),
                               (cy - rect_top rect) * (canvas_h g / rect_height rect)))
      in case evt of
           Mouse cx cy \<Rightarrow> Some (scale (cx, cy))
         | Touch [] \<Rightarrow> None
         | Touch (c # _) \<Rightarrow> Some (scale c))"

definition hit :: "real \<Rightarrow> real \<Rightarrow> drop \<Rightarrow> bool" where
  "hit px py d =
     (let dx = d_x d - px; dy = d_y d - py; dist = sqrt (dx * dx + dy * dy)
      in dist < d_size d * 1.8)"

text \<open>
  \<open>for(let i=drops.length-1;i>=0;i--)\<close> with its \<open>return\<close> at the first hit:
  \<open>scanHit px py ds n\<close> looks at the indices \<open>n-1\<close> down to \<open>0\<close>.
\<close>

fun scanHit :: "real \<Rightarrow> real \<Rightarrow> drop list \<Rightarrow> nat \<Rightarrow> nat option" where
  "scanHit px py ds 0 = None"
| "scanHit px py ds (Suc i) = (if hit px py (ds ! i) then Some i else scanHit px py ds i)"

text \<open>\<open>xs.splice(i, 1)\<close>.\<close>

definition splice1 :: "nat \<Rightarrow> 'a list \<Rightarrow> 'a list" where
  "splice1 i xs = take i xs @ drop (Suc i) xs"

text \<open>The two branches of a hit, on the drop \<open>d\<close> the scan stopped at.\<close>

definition applyHit :: "drop \<Rightarrow> game \<Rightarrow> game" where
  "applyHit d g =
     (if d_polluted d
      then g\<lparr>lives := max 0 (lives g - 1), waterPercent := max 0 (waterPercent g - 10)\<rparr>
      else checkMilestones
             (g\<lparr>score := score g + 10, waterPercent := min 100 (waterPercent g + 6)\<rparr>))"

definition handlePointer :: "pointer \<Rightarrow> domrect \<Rightarrow> game \<Rightarrow> game" where
  "handlePointer evt rect g =
     (if \<not> running g then g
      else case tapPoint evt rect g of
             None \<Rightarrow> g
           | Some (px, py) \<Rightarrow>
               (case scanHit px py (drops g) (length (drops g)) of
                  None \<Rightarrow> g
                | Some i \<Rightarrow>
                    (let g1 = applyHit (drops g ! i) g
                     in checkGameOver (g1\<lparr>drops := splice1 i (drops g1)\<rparr>))))"

subsection \<open>Events and reachable states\<close>

datatype event =
    Frame real real rands
  | Tick
  | Pointer pointer domrect
  | StartRound real domrect
  | ResetGame domrect
  | TogglePause real
  | Hidden
  | Difficulty difficulty
  | Resize domrect

fun step :: "event \<Rightarrow> game \<Rightarrow> game" where
  "step (Frame now dnow rnd) g = loop now dnow rnd g"
| "step Tick g = timerTick g"
| "step (Pointer evt rect) g = handlePointer evt rect g"
| "step (StartRound pnow rect) g = startRound pnow rect g"
| "step (ResetGame rect) g = resetGame rect g"
| "step (TogglePause pnow) g = togglePause pnow g"
| "step Hidden g = visibilityHidden g"
| "step (Difficulty k) g = setDifficulty k g"
| "step (Resize rect) g = setupCanvas rect g"

text \<open>
  A frame runs only while one is pending, a tick only while an interval is alive, and
  \<open>Math.random()\<close> returns values in \<open>[0, 1)\<close>. Everything else can happen at any time.
\<close>

fun enabled :: "event \<Rightarrow> game \<Rightarrow> bool" where
  "enabled (Frame now dnow rnd) g = (framePending g \<and> unit_rands rnd)"
| "enabled Tick g = (intervals g \<noteq> [])"
| "enabled e g = True"

text \<open>The state when the script has run: the closure's initialisers and \<open>setupCanvas\<close>.\<close>

definition initial :: "real \<Rightarrow> domrect \<Rightarrow> game" where
  "initial pnow rect = setupCanvas rect
     \<lparr>running = False, paused = False, drops = [], lastSpawn = 0, spawnInterval = 700,
      score = 0, lives = 3, waterPercent = 0, timeLeft = roundTime, timerId = None,
      intervals = [], nextHandle = 1, framePending = False, lastFrame = pnow,
      currentDifficulty = Normal, milestonesReached = [], canvas_w = 0, canvas_h = 0\<rparr>"

inductive reachable :: "game \<Rightarrow> bool" where
  reach_initial: "reachable (initial pnow rect)"
| reach_step: "reachable g \<Longrightarrow> enabled e g \<Longrightarrow> reachable (step e g)"

fun run :: "event list \<Rightarrow> game \<Rightarrow> game" where
  "run [] g = g"
| "run (e # es) g = run es (step e g)"

subsection \<open>The invariant of the reachable states\<close>

text \<open>
  The meter stays in its range; while a round runs the meter is below 100 and a life is
  left (\<open>checkGameOver\<close> ends the round otherwise); the game is paused only within a
  round; and between two callbacks the drops are in ascending order of \<open>y\<close>, the
  order \<open>render\<close> leaves them in.
\<close>

definition invariant :: "game \<Rightarrow> bool" where
  "invariant g =
     (0 \<le> waterPercent g \<and> waterPercent g \<le> 100
      \<and> (if running g then waterPercent g < 100 \<and> 1 \<le> lives g else \<not> paused g)
      \<and> sorted (map d_y (drops g)))"

text \<open>What a tap does once the scan has stopped at index \<open>i\<close>.\<close>

definition hitAt :: "nat \<Rightarrow> game \<Rightarrow> game" where
  "hitAt i g = checkGameOver ((applyHit (drops g ! i) g)\<lparr>drops := splice1 i (drops g)\<rparr>)"

fun enabled_all :: "event list \<Rightarrow> game \<Rightarrow> bool" where
  "enabled_all [] g = True"
| "enabled_all (e # es) g = (enabled e g \<and> enabled_all es (step e g))"

subsection \<open>Concrete runs\<close>

text \<open>A 720 by 420 canvas at the page origin, and the random draws of three spawns.\<close>

definition rect0 :: domrect where
  "rect0 = \<lparr>rect_left = 0, rect_top = 0, rect_width = 720, rect_height = 420\<rparr>"

definition rectNarrow :: domrect where
  "rectNarrow = \<lparr>rect_left = 0, rect_top = 0, rect_width = 100, rect_height = 420\<rparr>"

definition rndClean :: rands where
  "rndClean = \<lparr>r_polluted = 0.5, r_size = 0.5, r_x = 0.5, r_speed = 0.5, r_vx = 0.5,
     r_rotation = 0.5, r_rotationSpeed = 0.5, r_opacity = 0.5\<rparr>"

definition rndPolluted :: rands where
  "rndPolluted = rndClean\<lparr>r_polluted := 0.01\<rparr>"

definition rndLarge :: rands where
  "rndLarge = rndClean\<lparr>r_size := 0.9\<rparr>"

text \<open>A normal round after its first frame: one clean drop near \<open>(360, -45)\<close>.\<close>

definition gOneClean :: game where
  "gOneClean = run [StartRound 1000 rect0, Frame 1016 5000 rndClean] (initial 0 rect0)"

text \<open>The same with a polluted first drop, near \<open>(360, -57)\<close>.\<close>

definition gOnePolluted :: game where
  "gOnePolluted = run [StartRound 1000 rect0, Frame 1016 5000 rndPolluted] (initial 0 rect0)"

text \<open>The first run after its clean drop has been tapped.\<close>

definition gTapped :: game where
  "gTapped = step (Pointer (Mouse 360 (-45)) rect0) gOneClean"

text \<open>
  A second, larger clean drop spawned 700 ms after the first: both are near
  \<open>(360, -45)\<close>, the older one lower on the screen.
\<close>

definition gTwoDrops :: game where
  "gTwoDrops = step (Frame 1716 5700 rndLarge) gOneClean"

text \<open>The same state, paused.\<close>

definition gPaused :: game where
  "gPaused = step (TogglePause 1720) gTwoDrops"

text \<open>
  A hard round (two lives): a polluted drop is spawned and tapped, a second polluted
  drop is spawned 700 ms later.
\<close>

definition gLastLife :: game where
  "gLastLife = run [Difficulty Hard, StartRound 1000 rect0, Frame 1016 5000 rndPolluted,
                    Pointer (Mouse 360 (-57)) rect0, Frame 1716 5700 rndPolluted]
                   (initial 0 rect0)"

text \<open>A normal round with one second left on its timer.\<close>

definition gLastSecond :: game where
  "gLastSecond = run (replicate 29 Tick) gOnePolluted"

text \<open>A hard round, five ticks of the timer in.\<close>

definition gHardFive :: game where
  "gHardFive = run [Difficulty Hard, StartRound 1000 rect0, Frame 1016 5000 rndClean,
                    Tick, Tick, Tick, Tick, Tick]
                   (initial 0 rect0)"

text \<open>The same round right after its next spawn, when the player switches to easy.\<close>

definition gSwitched :: game where
  "gSwitched = run [Frame 6016 10000 rndClean, Difficulty Easy] gHardFive"

text \<open>A state in mid round with drops below the bottom edge of the canvas.\<close>

definition fallingDrop :: "bool \<Rightarrow> real \<Rightarrow> drop" where
  "fallingDrop isPolluted py =
     \<lparr>d_x = 360, d_y = py, d_size = 30, d_speed = 300, d_polluted = isPolluted, d_vx = 0,
      d_rotation = 0, d_rotationSpeed = 0, d_birth = 1000, d_gravity = 153, d_drag = 0.999,
      d_opacity = 1, d_trail = []\<rparr>"

definition gMidRound :: "drop list \<Rightarrow> game" where
  "gMidRound ds =
     (initial 0 rect0)\<lparr>running := True, framePending := True, lastSpawn := 4900,
        spawnInterval := 650, score := 20, waterPercent := 12, drops := ds\<rparr>"

section \<open>Facts about the callbacks\<close>

lemmas callback_defs =
  initial_def startRound_def setupCanvas_def orElse_def optOrElse_def startTimer_def
  setInterval_def stopTimer_def endRound_def roundTime_def timerTick_def
  loop_def update_def respawn_def spawnDrop_def createDrop_def rand_def moveDrop_def
  fadeTrail_def fellOff_def bounce_def render_def
  handlePointer_def tapPoint_def applyHit_def checkMilestones_def milestones_def
  checkGameOver_def splice1_def resetGame_def pauseGame_def resumeGame_def togglePause_def
  visibilityHidden_def setDifficulty_def unit_rands_def Let_def

lemmas run_defs =
  rect0_def rectNarrow_def rndClean_def rndPolluted_def rndLarge_def gOneClean_def
  gOnePolluted_def gTapped_def gPaused_def gTwoDrops_def gLastLife_def gLastSecond_def gHardFive_def
  gSwitched_def
  fallingDrop_def gMidRound_def

lemma sweep_wp_range:
  "0 \<le> wp \<Longrightarrow> 0 \<le> snd (sweep dt dnow w h ds wp) \<and> snd (sweep dt dnow w h ds wp) \<le> wp"
  by (induction ds) (auto simp: Let_def split: prod.splits)

lemma respawn_fields [simp]:
  "waterPercent (respawn dnow rnd g) = waterPercent g"
  "running (respawn dnow rnd g) = running g"
  "paused (respawn dnow rnd g) = paused g"
  "lives (respawn dnow rnd g) = lives g"
  "score (respawn dnow rnd g) = score g"
  "timeLeft (respawn dnow rnd g) = timeLeft g"
  "canvas_w (respawn dnow rnd g) = canvas_w g"
  "canvas_h (respawn dnow rnd g) = canvas_h g"
  "currentDifficulty (respawn dnow rnd g) = currentDifficulty g"
  by (simp_all add: respawn_def spawnDrop_def Let_def)

lemma update_fields [simp]:
  "running (update dt dnow rnd g) = running g"
  "paused (update dt dnow rnd g) = paused g"
  "lives (update dt dnow rnd g) = lives g"
  "score (update dt dnow rnd g) = score g"
  "timeLeft (update dt dnow rnd g) = timeLeft g"
  "currentDifficulty (update dt dnow rnd g) = currentDifficulty g"
  by (simp_all add: update_def Let_def split: prod.splits)

lemma update_waterPercent:
  "waterPercent (update dt dnow rnd g) =
     snd (sweep dt dnow (canvas_w g) (canvas_h g) (drops (respawn dnow rnd g)) (waterPercent g))"
  by (simp add: update_def Let_def split: prod.splits)

lemma update_drops:
  "drops (update dt dnow rnd g) =
     fst (sweep dt dnow (canvas_w g) (canvas_h g) (drops (respawn dnow rnd g)) (waterPercent g))"
  by (simp add: update_def Let_def split: prod.splits)

lemma loop_fields [simp]:
  "running (loop now dnow rnd g) = running g"
  "paused (loop now dnow rnd g) = paused g"
  "lives (loop now dnow rnd g) = lives g"
  "score (loop now dnow rnd g) = score g"
  "timeLeft (loop now dnow rnd g) = timeLeft g"
  "currentDifficulty (loop now dnow rnd g) = currentDifficulty g"
  by (simp_all add: loop_def render_def Let_def)

lemma loop_waterPercent:
  "waterPercent (loop now dnow rnd g) =
     (if paused g then waterPercent g
      else waterPercent (update (min 0.05 ((now - lastFrame g) / 1000)) dnow rnd (g\<lparr>lastFrame := now\<rparr>)))"
  by (simp add: loop_def render_def Let_def)

lemma loop_sorted: "sorted (map d_y (drops (loop now dnow rnd g)))"
  by (simp add: loop_def render_def Let_def)

lemma loop_waterPercent_range:
  assumes "0 \<le> waterPercent g"
  shows "0 \<le> waterPercent (loop now dnow rnd g) \<and> waterPercent (loop now dnow rnd g) \<le> waterPercent g"
proof (cases "paused g")
  case True
  then show ?thesis using assms by (simp add: loop_waterPercent)
next
  case False
  then show ?thesis
    using assms sweep_wp_range [of "waterPercent g"]
    by (simp add: loop_waterPercent update_waterPercent)
qed

lemma invariant_loop: "invariant g \<Longrightarrow> invariant (loop now dnow rnd g)"
  using loop_waterPercent_range [of g now dnow rnd]
  by (auto simp: invariant_def loop_sorted)

lemma stopTimer_fields [simp]:
  "running (stopTimer g) = running g"
  "paused (stopTimer g) = paused g"
  "drops (stopTimer g) = drops g"
  "lives (stopTimer g) = lives g"
  "score (stopTimer g) = score g"
  "waterPercent (stopTimer g) = waterPercent g"
  "timeLeft (stopTimer g) = timeLeft g"
  "spawnInterval (stopTimer g) = spawnInterval g"
  "currentDifficulty (stopTimer g) = currentDifficulty g"
  by (simp_all add: stopTimer_def split: option.splits)

lemma endRound_fields [simp]:
  "running (endRound g) = False"
  "paused (endRound g) = False"
  "drops (endRound g) = drops g"
  "lives (endRound g) = lives g"
  "score (endRound g) = score g"
  "waterPercent (endRound g) = waterPercent g"
  "timeLeft (endRound g) = timeLeft g"
  "spawnInterval (endRound g) = spawnInterval g"
  "currentDifficulty (endRound g) = currentDifficulty g"
  by (simp_all add: endRound_def)

lemma startTimer_fields [simp]:
  "running (startTimer g) = running g"
  "paused (startTimer g) = paused g"
  "drops (startTimer g) = drops g"
  "lives (startTimer g) = lives g"
  "score (startTimer g) = score g"
  "waterPercent (startTimer g) = waterPercent g"
  "timeLeft (startTimer g) = roundTime"
  "spawnInterval (startTimer g) = spawnInterval g"
  "currentDifficulty (startTimer g) = currentDifficulty g"
  by (simp_all add: startTimer_def setInterval_def)

lemma checkMilestones_fields [simp]:
  "running (checkMilestones g) = running g"
  "paused (checkMilestones g) = paused g"
  "drops (checkMilestones g) = drops g"
  "lives (checkMilestones g) = lives g"
  "score (checkMilestones g) = score g"
  "waterPercent (checkMilestones g) = waterPercent g"
  "timeLeft (checkMilestones g) = timeLeft g"
  "spawnInterval (checkMilestones g) = spawnInterval g"
  "currentDifficulty (checkMilestones g) = currentDifficulty g"
  by (simp_all add: checkMilestones_def milestones_def)

lemma invariant_timerTick: "invariant g \<Longrightarrow> invariant (timerTick g)"
  by (auto simp: invariant_def timerTick_def Let_def)

lemma cfg_lives_pos: "difficultySettings k = Some st \<Longrightarrow> 1 \<le> cfg_lives st"
  by (cases k) auto

lemma invariant_startRound: "invariant g \<Longrightarrow> invariant (startRound pnow rect g)"
  by (auto simp: invariant_def startRound_def setupCanvas_def Let_def cfg_lives_pos
           split: option.splits)

lemma invariant_resetGame: "invariant (resetGame rect g)"
  by (simp add: invariant_def resetGame_def setupCanvas_def Let_def)

lemma invariant_togglePause: "invariant g \<Longrightarrow> invariant (togglePause pnow g)"
  by (auto simp: invariant_def togglePause_def pauseGame_def resumeGame_def split: if_splits)

lemma invariant_visibilityHidden: "invariant g \<Longrightarrow> invariant (visibilityHidden g)"
  by (auto simp: invariant_def visibilityHidden_def pauseGame_def split: if_splits)

lemma invariant_setDifficulty: "invariant g \<Longrightarrow> invariant (setDifficulty k g)"
  by (auto simp: invariant_def setDifficulty_def Let_def split: option.splits if_splits)

lemma invariant_setupCanvas: "invariant g \<Longrightarrow> invariant (setupCanvas rect g)"
  by (simp add: invariant_def setupCanvas_def)

lemma sorted_splice1:
  assumes "sorted (map f xs)"
  shows "sorted (map f (splice1 i xs))"
proof -
  have "sorted (map f (take i xs) @ map f (drop i xs))"
    using assms by (simp flip: map_append)
  then have a: "sorted (map f (take i xs))" and b: "sorted (map f (drop i xs))"
    and c: "\<forall>x\<in>set (take i xs). \<forall>y\<in>set (drop i xs). f x \<le> f y"
    by (auto simp: sorted_append)
  have "drop (Suc i) xs = tl (drop i xs)" by (simp add: drop_Suc tl_drop)
  then have d: "sorted (map f (drop (Suc i) xs))" using b by (simp add: sorted_tl map_tl)
  have "set (drop (Suc i) xs) \<subseteq> set (drop i xs)"
    by (rule set_drop_subset_set_drop) simp
  then show ?thesis using a c d by (auto simp: splice1_def sorted_append)
qed

lemma checkGameOver_fields [simp]:
  "drops (checkGameOver g) = drops g"
  "lives (checkGameOver g) = lives g"
  "score (checkGameOver g) = score g"
  "waterPercent (checkGameOver g) = waterPercent g"
  "timeLeft (checkGameOver g) = timeLeft g"
  "spawnInterval (checkGameOver g) = spawnInterval g"
  "currentDifficulty (checkGameOver g) = currentDifficulty g"
  by (simp_all add: checkGameOver_def)

lemma checkGameOver_running:
  "running (checkGameOver g) = (running g \<and> \<not> (lives g \<le> 0 \<or> waterPercent g \<ge> 100))"
  "paused (checkGameOver g) = (paused g \<and> \<not> (lives g \<le> 0 \<or> waterPercent g \<ge> 100))"
  by (simp_all add: checkGameOver_def)

lemma applyHit_fields [simp]:
  "running (applyHit d g) = running g"
  "paused (applyHit d g) = paused g"
  "drops (applyHit d g) = drops g"
  "timeLeft (applyHit d g) = timeLeft g"
  "spawnInterval (applyHit d g) = spawnInterval g"
  "currentDifficulty (applyHit d g) = currentDifficulty g"
  "score (applyHit d g) = (if d_polluted d then score g else score g + 10)"
  "lives (applyHit d g) = (if d_polluted d then max 0 (lives g - 1) else lives g)"
  "waterPercent (applyHit d g) =
     (if d_polluted d then max 0 (waterPercent g - 10) else min 100 (waterPercent g + 6))"
  by (simp_all add: applyHit_def)

lemma handlePointer_cases:
  "handlePointer evt rect g =
     (if \<not> running g then g
      else case tapPoint evt rect g of
             None \<Rightarrow> g
           | Some (px, py) \<Rightarrow>
               (case scanHit px py (drops g) (length (drops g)) of
                  None \<Rightarrow> g | Some i \<Rightarrow> hitAt i g))"
  by (simp add: handlePointer_def hitAt_def Let_def split: option.splits)

lemma invariant_hitAt: "invariant g \<Longrightarrow> running g \<Longrightarrow> invariant (hitAt i g)"
  by (auto simp: invariant_def hitAt_def checkGameOver_running sorted_splice1)

lemma invariant_handlePointer: "invariant g \<Longrightarrow> invariant (handlePointer evt rect g)"
  by (simp add: handlePointer_cases invariant_hitAt split: option.splits prod.splits)

lemma invariant_step: "invariant g \<Longrightarrow> invariant (step e g)"
  by (cases e)
     (simp_all add: invariant_loop invariant_timerTick invariant_handlePointer
        invariant_startRound invariant_resetGame invariant_togglePause
        invariant_visibilityHidden invariant_setDifficulty invariant_setupCanvas)

lemma invariant_initial: "invariant (initial pnow rect)"
  by (simp add: invariant_def initial_def setupCanvas_def)

lemma reachable_invariant: "reachable g \<Longrightarrow> invariant g"
  by (induction rule: reachable.induct) (simp_all add: invariant_initial invariant_step)

lemma scanHit_Some:
  "scanHit px py ds n = Some i \<longleftrightarrow>
     (i < n \<and> hit px py (ds ! i) \<and> (\<forall>j. i < j \<and> j < n \<longrightarrow> \<not> hit px py (ds ! j)))"
proof (induction n)
  case 0
  then show ?case by simp
next
  case (Suc n)
  show ?case
  proof (cases "hit px py (ds ! n)")
    case True
    then show ?thesis by (auto simp: less_Suc_eq intro: linorder_cases [of i n])
  next
    case False
    then show ?thesis using Suc by (auto simp: less_Suc_eq)
  qed
qed

lemma scanHit_None:
  "scanHit px py ds n = None \<longleftrightarrow> (\<forall>j < n. \<not> hit px py (ds ! j))"
  by (induction n) (auto simp: less_Suc_eq)


lemma sqrt_less_iff: "0 \<le> a \<Longrightarrow> sqrt a < b \<longleftrightarrow> (0 < b \<and> a < b * b)"
proof (cases "0 < b")
  case True
  assume a: "0 \<le> a"
  have "sqrt a < b \<longleftrightarrow> sqrt a < sqrt (b * b)" using True by simp
  also have "\<dots> \<longleftrightarrow> a < b * b" by (rule real_sqrt_less_iff)
  finally show ?thesis using True by simp
next
  case False
  assume a: "0 \<le> a"
  then have "0 \<le> sqrt a" by simp
  then have "\<not> sqrt a < b" using False by linarith
  then show ?thesis using False by simp
qed

lemma hit_iff:
  "hit px py d \<longleftrightarrow>
     (0 < d_size d * 1.8 \<and>
      (d_x d - px) * (d_x d - px) + (d_y d - py) * (d_y d - py)
        < (d_size d * 1.8) * (d_size d * 1.8))"
  unfolding hit_def Let_def by (rule sqrt_less_iff) simp

lemma reachable_run: "reachable g \<Longrightarrow> enabled_all es g \<Longrightarrow> reachable (run es g)"
  by (induction es arbitrary: g) (auto intro: reach_step)

section \<open>The concrete runs\<close>

lemma gOneClean_reachable: "reachable gOneClean"
  unfolding gOneClean_def
  by (rule reachable_run [OF reach_initial]) (simp add: run_defs callback_defs)

lemma gOneClean_waterPercent: "waterPercent gOneClean = 0"
  by (simp add: run_defs callback_defs)

lemma gTapped_waterPercent: "waterPercent gTapped = 6"
  by (simp add: run_defs callback_defs hit_iff)

lemma gOnePolluted_reachable: "reachable gOnePolluted"
  unfolding gOnePolluted_def
  by (rule reachable_run [OF reach_initial]) (simp add: run_defs callback_defs)

lemma gOnePolluted_tap:
  "running gOnePolluted \<and> tapPoint (Mouse 360 (-57)) rect0 gOnePolluted = Some (360, -57)
   \<and> length (drops gOnePolluted) = 1 \<and> hit 360 (-57) (drops gOnePolluted ! 0)
   \<and> d_polluted (drops gOnePolluted ! 0) \<and> score gOnePolluted = 0
   \<and> lives gOnePolluted = 3 \<and> waterPercent gOnePolluted = 0"
  by (simp add: run_defs callback_defs hit_iff)

lemma sin_bounds: "- 1 \<le> sin (x::real) \<and> sin x \<le> 1 \<and> sin x * sin x \<le> 1"
proof -
  have "(sin x)\<^sup>2 + (cos x)\<^sup>2 = 1" by (rule sin_cos_squared_add)
  moreover have "0 \<le> (cos x)\<^sup>2" by simp
  ultimately have "(sin x)\<^sup>2 \<le> 1" by linarith
  then show ?thesis by (simp add: power2_eq_square)
qed

lemma map_splice1: "map f (splice1 i xs) = splice1 i (map f xs)"
  by (simp add: splice1_def take_map drop_map)

lemma gTwoDrops_reachable: "reachable gTwoDrops"
  unfolding gTwoDrops_def
  by (rule reach_step [OF gOneClean_reachable]) (simp add: run_defs callback_defs)

lemma gTwoDrops_facts:
  "running gTwoDrops \<and> tapPoint (Mouse 360 (-45)) rect0 gTwoDrops = Some (360, -45)
   \<and> length (drops gTwoDrops) = 2
   \<and> map d_birth (drops gTwoDrops) = [5700, 5000]
   \<and> map d_polluted (drops gTwoDrops) = [False, False]
   \<and> hit 360 (-45) (drops gTwoDrops ! 0) \<and> hit 360 (-45) (drops gTwoDrops ! 1)
   \<and> score gTwoDrops = 0 \<and> \<not> paused gTwoDrops \<and> waterPercent gTwoDrops = 0
   \<and> timeLeft gTwoDrops = 30 \<and> spawnInterval gTwoDrops = 650 \<and> lives gTwoDrops = 3"
  apply (simp add: run_defs callback_defs hit_iff)
  apply (insert sin_le_one [of "43 / 5"] sin_ge_minus_one [of "43 / 5"] sin_bounds [of "43 / 5"])
  apply (intro conjI impI; linarith)
  done

text \<open>A tap higher up reaches the upper drop only.\<close>

lemma gTwoDrops_high_tap:
  "tapPoint (Mouse 360 (-90)) rect0 gTwoDrops = Some (360, -90)
   \<and> hit 360 (-90) (drops gTwoDrops ! 0) \<and> \<not> hit 360 (-90) (drops gTwoDrops ! 1)"
  apply (simp add: run_defs callback_defs hit_iff)
  apply (insert sin_le_one [of "43 / 5"] sin_ge_minus_one [of "43 / 5"]
                zero_le_square [of "sin (43 / 5 :: real)"])
  apply (intro conjI impI; linarith)
  done

section \<open>The water meter\<close>

text \<open>
  C1. The water meter stays within 0 to 100: in every state the game can reach the meter
  is at least 0 and at most 100, and whatever callback runs next (a tap on a clean or a
  polluted drop, a frame in which drops fall off the bottom, the start of a round, or any
  other) leaves it at least 0 and at most 100.
\<close>

theorem waterPercent_in_range:
  assumes "reachable g"
  shows "0 \<le> waterPercent g \<and> waterPercent g \<le> 100
         \<and> 0 \<le> waterPercent (step e g) \<and> waterPercent (step e g) \<le> 100"
proof -
  have "invariant g" using assms by (rule reachable_invariant)
  moreover from this have "invariant (step e g)" by (rule invariant_step)
  ultimately show ?thesis by (simp add: invariant_def)
qed

theorem waterPercent_in_range_witness:
  "reachable gOneClean \<and> waterPercent gOneClean = 0
   \<and> waterPercent (step (Pointer (Mouse 360 (-45)) rect0) gOneClean) = 6
   \<and> 0 \<le> waterPercent (step (Pointer (Mouse 360 (-45)) rect0) gOneClean)
   \<and> waterPercent (step (Pointer (Mouse 360 (-45)) rect0) gOneClean) \<le> 100"
  using waterPercent_in_range [OF gOneClean_reachable, of "Pointer (Mouse 360 (-45)) rect0"]
    gOneClean_reachable gOneClean_waterPercent gTapped_waterPercent
  by (simp add: gTapped_def)

section \<open>Taps\<close>

text \<open>
  A tap that finds a drop: the scan from the last index stops at the highest index
  whose drop is within reach of the tap point.
\<close>

lemma handlePointer_hit:
  assumes "running g" and "tapPoint evt rect g = Some (px, py)"
    and "i < length (drops g)" and "hit px py (drops g ! i)"
    and "\<forall>j. i < j \<and> j < length (drops g) \<longrightarrow> \<not> hit px py (drops g ! j)"
  shows "handlePointer evt rect g = hitAt i g"
proof -
  have "scanHit px py (drops g) (length (drops g)) = Some i"
    using assms(3-5) by (simp add: scanHit_Some)
  then show ?thesis using assms(1,2) by (simp add: handlePointer_cases)
qed

lemma hitAt_fields:
  "drops (hitAt i g) = splice1 i (drops g)"
  "score (hitAt i g) = (if d_polluted (drops g ! i) then score g else score g + 10)"
  "lives (hitAt i g) = (if d_polluted (drops g ! i) then max 0 (lives g - 1) else lives g)"
  "waterPercent (hitAt i g) =
     (if d_polluted (drops g ! i) then max 0 (waterPercent g - 10)
      else min 100 (waterPercent g + 6))"
  by (simp_all add: hitAt_def)

text \<open>
  C2. A tap that hits a clean drop while a round is running raises the water meter by 6,
  capped at 100, and the score by exactly 10. Neither decreases; the meter in fact
  rises strictly, since a running round has its meter below 100.
\<close>

theorem clean_hit:
  assumes "reachable g" and "running g" and "tapPoint evt rect g = Some (px, py)"
    and "i < length (drops g)" and "hit px py (drops g ! i)"
    and "\<forall>j. i < j \<and> j < length (drops g) \<longrightarrow> \<not> hit px py (drops g ! j)"
    and "\<not> d_polluted (drops g ! i)"
  shows "waterPercent (handlePointer evt rect g) = min 100 (waterPercent g + 6)
         \<and> waterPercent g < waterPercent (handlePointer evt rect g)
         \<and> score (handlePointer evt rect g) = score g + 10
         \<and> score g \<le> score (handlePointer evt rect g)"
proof -
  have eq: "handlePointer evt rect g = hitAt i g"
    using assms(2-6) by (rule handlePointer_hit)
  have "waterPercent g < 100"
    using reachable_invariant [OF assms(1)] assms(2) by (simp add: invariant_def)
  then show ?thesis using assms(7) by (simp add: eq hitAt_fields)
qed

theorem clean_hit_witness:
  "reachable gTwoDrops \<and> running gTwoDrops \<and> length (drops gTwoDrops) = 2
   \<and> hit 360 (-90) (drops gTwoDrops ! 0) \<and> \<not> hit 360 (-90) (drops gTwoDrops ! 1)
   \<and> \<not> d_polluted (drops gTwoDrops ! 0)
   \<and> waterPercent gTwoDrops = 0 \<and> score gTwoDrops = 0
   \<and> waterPercent (handlePointer (Mouse 360 (-90)) rect0 gTwoDrops) = 6
   \<and> score (handlePointer (Mouse 360 (-90)) rect0 gTwoDrops) = 10"
proof -
  note f = gTwoDrops_facts and h = gTwoDrops_high_tap
  have len: "length (drops gTwoDrops) = 2" using f by simp
  have last: "\<forall>j. 0 < j \<and> j < length (drops gTwoDrops)
                \<longrightarrow> \<not> hit 360 (-90) (drops gTwoDrops ! j)"
  proof (intro allI impI)
    fix j assume "0 < j \<and> j < length (drops gTwoDrops)"
    then have "j = 1" using len by simp
    then show "\<not> hit 360 (-90) (drops gTwoDrops ! j)" using h by simp
  qed
  have c: "\<not> d_polluted (drops gTwoDrops ! 0)"
    using f nth_map [of 0 "drops gTwoDrops" d_polluted] by simp
  have r: "running gTwoDrops"
    and t: "tapPoint (Mouse 360 (-90)) rect0 gTwoDrops = Some (360, -90)"
    and i: "0 < length (drops gTwoDrops)" and h0: "hit 360 (-90) (drops gTwoDrops ! 0)"
    using f h by simp_all
  show ?thesis
    using clean_hit [OF gTwoDrops_reachable r t i h0 last c] gTwoDrops_reachable f h c
    by simp
qed

text \<open>
  C3. A tap that hits a polluted drop while a round is running costs exactly one life
  (the code floors the lives at 0, and a running round has at least one life left, so
  the floor is never reached), lowers the water meter by 10, floored at 0, and leaves
  the score as it was.
\<close>

theorem polluted_hit:
  assumes "reachable g" and "running g" and "tapPoint evt rect g = Some (px, py)"
    and "i < length (drops g)" and "hit px py (drops g ! i)"
    and "\<forall>j. i < j \<and> j < length (drops g) \<longrightarrow> \<not> hit px py (drops g ! j)"
    and "d_polluted (drops g ! i)"
  shows "lives (handlePointer evt rect g) = max 0 (lives g - 1)
         \<and> lives (handlePointer evt rect g) = lives g - 1
         \<and> waterPercent (handlePointer evt rect g) = max 0 (waterPercent g - 10)
         \<and> score (handlePointer evt rect g) = score g"
proof -
  have eq: "handlePointer evt rect g = hitAt i g"
    using assms(2-6) by (rule handlePointer_hit)
  have "1 \<le> lives g"
    using reachable_invariant [OF assms(1)] assms(2) by (simp add: invariant_def)
  then show ?thesis using assms(7) by (simp add: eq hitAt_fields)
qed

theorem polluted_hit_witness:
  "reachable gOnePolluted \<and> running gOnePolluted
   \<and> hit 360 (-57) (drops gOnePolluted ! 0) \<and> d_polluted (drops gOnePolluted ! 0)
   \<and> lives gOnePolluted = 3 \<and> waterPercent gOnePolluted = 0 \<and> score gOnePolluted = 0
   \<and> lives (handlePointer (Mouse 360 (-57)) rect0 gOnePolluted) = 2
   \<and> waterPercent (handlePointer (Mouse 360 (-57)) rect0 gOnePolluted) = 0
   \<and> score (handlePointer (Mouse 360 (-57)) rect0 gOnePolluted) = 0"
proof -
  have last: "\<forall>j. 0 < j \<and> j < length (drops gOnePolluted)
                \<longrightarrow> \<not> hit 360 (-57) (drops gOnePolluted ! j)"
    using gOnePolluted_tap by auto
  show ?thesis
    using polluted_hit [OF gOnePolluted_reachable _ _ _ _ last, of "Mouse 360 (-57)" rect0]
      gOnePolluted_reachable gOnePolluted_tap
    by simp
qed

text \<open>
  C8, as the claim states it, fails: a tap does take the drop at the highest list index
  among those within reach, but that drop need not be the one spawned last. \<open>render\<close>
  sorts the list by \<open>y\<close> on every frame, so a newly spawned drop, which starts above
  the canvas, moves to the front. Here two drops are within reach of the tap at
  \<open>(360, -45)\<close>; the one spawned at 5000 is taken and the one spawned at 5700 stays.
\<close>

theorem tap_most_recent_counterexample:
  "running gTwoDrops \<and> map d_birth (drops gTwoDrops) = [5700, 5000]
   \<and> hit 360 (-45) (drops gTwoDrops ! 0) \<and> hit 360 (-45) (drops gTwoDrops ! 1)
   \<and> map d_birth (drops (handlePointer (Mouse 360 (-45)) rect0 gTwoDrops)) = [5700]"
proof -
  note f = gTwoDrops_facts
  have last: "\<forall>j. 1 < j \<and> j < length (drops gTwoDrops)
                \<longrightarrow> \<not> hit 360 (-45) (drops gTwoDrops ! j)"
    using f by auto
  have "handlePointer (Mouse 360 (-45)) rect0 gTwoDrops = hitAt 1 gTwoDrops"
    using f last by (intro handlePointer_hit) simp_all
  then have "map d_birth (drops (handlePointer (Mouse 360 (-45)) rect0 gTwoDrops))
               = splice1 1 (map d_birth (drops gTwoDrops))"
    by (simp add: hitAt_fields map_splice1)
  then show ?thesis using f by (simp add: splice1_def)
qed

text \<open>
  C8, amended. A tap removes and scores at most one drop. Outside a round, or when the
  event carries no touch point, nothing changes. In a round, when no drop has its centre
  within 1.8 times its size of the tap point nothing changes; otherwise the drop at the
  highest list index among those within reach is spliced out, every other drop stays as
  it was and in its place, and the score rises by 10 for a clean drop and not at all for
  a polluted one. Since the list is kept in ascending order of \<open>y\<close>, the drop taken
  is the lowest on the screen of those within reach.
\<close>

theorem tap_removes_last_hit:
  assumes "reachable g"
  shows "(\<not> running g \<or> tapPoint evt rect g = None \<longrightarrow> handlePointer evt rect g = g)
     \<and> (running g \<and> tapPoint evt rect g = Some (px, py) \<longrightarrow>
          ((\<forall>j < length (drops g). \<not> hit px py (drops g ! j)) \<longrightarrow> handlePointer evt rect g = g)
        \<and> (\<forall>i < length (drops g).
              hit px py (drops g ! i)
              \<and> (\<forall>j. i < j \<and> j < length (drops g) \<longrightarrow> \<not> hit px py (drops g ! j)) \<longrightarrow>
                drops (handlePointer evt rect g) = take i (drops g) @ drop (Suc i) (drops g)
              \<and> length (drops (handlePointer evt rect g)) + 1 = length (drops g)
              \<and> score (handlePointer evt rect g)
                  = (if d_polluted (drops g ! i) then score g else score g + 10)
              \<and> (\<forall>j < length (drops g). hit px py (drops g ! j)
                    \<longrightarrow> d_y (drops g ! j) \<le> d_y (drops g ! i))))"
proof -
  have srt: "sorted (map d_y (drops g))"
    using reachable_invariant [OF assms] by (simp add: invariant_def)
  have a: "\<not> running g \<or> tapPoint evt rect g = None \<longrightarrow> handlePointer evt rect g = g"
    by (auto simp: handlePointer_cases)
  have b: "handlePointer evt rect g = g"
    if "running g" "tapPoint evt rect g = Some (px, py)"
       "\<forall>j < length (drops g). \<not> hit px py (drops g ! j)"
  proof -
    have "scanHit px py (drops g) (length (drops g)) = None"
      using that(3) by (simp add: scanHit_None)
    then show ?thesis using that(1,2) by (simp add: handlePointer_cases)
  qed
  have c: "drops (handlePointer evt rect g) = take i (drops g) @ drop (Suc i) (drops g)
           \<and> length (drops (handlePointer evt rect g)) + 1 = length (drops g)
           \<and> score (handlePointer evt rect g)
                  = (if d_polluted (drops g ! i) then score g else score g + 10)
           \<and> (\<forall>j < length (drops g). hit px py (drops g ! j)
                    \<longrightarrow> d_y (drops g ! j) \<le> d_y (drops g ! i))"
    if "running g" "tapPoint evt rect g = Some (px, py)" "i < length (drops g)"
       "hit px py (drops g ! i)"
       "\<forall>j. i < j \<and> j < length (drops g) \<longrightarrow> \<not> hit px py (drops g ! j)" for i
  proof -
    have eq: "handlePointer evt rect g = hitAt i g" using that by (rule handlePointer_hit)
    have low: "d_y (drops g ! j) \<le> d_y (drops g ! i)"
      if j: "j < length (drops g)" "hit px py (drops g ! j)" for j
    proof -
      have "j \<le> i" using j \<open>\<forall>j. i < j \<and> j < length (drops g) \<longrightarrow> \<not> hit px py (drops g ! j)\<close>
        by (meson not_le)
      then have "map d_y (drops g) ! j \<le> map d_y (drops g) ! i"
        using srt \<open>i < length (drops g)\<close> by (simp add: sorted_nth_mono del: nth_map)
      then show ?thesis using j(1) \<open>i < length (drops g)\<close> by simp
    qed
    show ?thesis using that(3) low by (simp add: eq hitAt_fields splice1_def)
  qed
  show ?thesis using a b c by blast
qed

theorem tap_removes_last_hit_witness:
  "reachable gTwoDrops \<and> running gTwoDrops \<and> length (drops gTwoDrops) = 2
   \<and> hit 360 (-45) (drops gTwoDrops ! 0) \<and> hit 360 (-45) (drops gTwoDrops ! 1)
   \<and> drops (handlePointer (Mouse 360 (-45)) rect0 gTwoDrops) = [drops gTwoDrops ! 0]
   \<and> score (handlePointer (Mouse 360 (-45)) rect0 gTwoDrops) = 10
   \<and> d_y (drops gTwoDrops ! 0) \<le> d_y (drops gTwoDrops ! 1)"
proof -
  note f = gTwoDrops_facts
  have len: "length (drops gTwoDrops) = 2" using f by simp
  have last: "\<forall>j. 1 < j \<and> j < length (drops gTwoDrops)
                \<longrightarrow> \<not> hit 360 (-45) (drops gTwoDrops ! j)"
    using f by auto
  have pol: "\<not> d_polluted (drops gTwoDrops ! 1)"
    using f nth_map [of 1 "drops gTwoDrops" d_polluted] by simp
  have "drops (handlePointer (Mouse 360 (-45)) rect0 gTwoDrops)
          = take 1 (drops gTwoDrops) @ drop (Suc 1) (drops gTwoDrops)
        \<and> score (handlePointer (Mouse 360 (-45)) rect0 gTwoDrops)
          = (if d_polluted (drops gTwoDrops ! 1) then score gTwoDrops else score gTwoDrops + 10)
        \<and> d_y (drops gTwoDrops ! 0) \<le> d_y (drops gTwoDrops ! 1)"
  proof -
    have i: "(1::nat) < length (drops gTwoDrops)" and z: "(0::nat) < length (drops gTwoDrops)"
      using len by simp_all
    have r: "running gTwoDrops \<and> tapPoint (Mouse 360 (-45)) rect0 gTwoDrops = Some (360, -45)"
      and h1: "hit 360 (-45) (drops gTwoDrops ! 1)" and h0: "hit 360 (-45) (drops gTwoDrops ! 0)"
      using f by simp_all
    show ?thesis
      using tap_removes_last_hit [OF gTwoDrops_reachable, of "Mouse 360 (-45)" rect0 360 "-45"]
        r i z h1 h0 last
      by blast
  qed
  moreover have "take 1 (drops gTwoDrops) = [drops gTwoDrops ! 0]"
    using len by (cases "drops gTwoDrops") auto
  ultimately show ?thesis using f pol gTwoDrops_reachable by simp
qed

section \<open>Frames while paused\<close>

lemma gPaused_reachable: "reachable gPaused"
  unfolding gPaused_def by (rule reach_step [OF gTwoDrops_reachable]) simp

lemma gPaused_facts:
  "paused gPaused \<and> length (drops gPaused) = 2 \<and> waterPercent gPaused = 0
   \<and> timeLeft gPaused = 30 \<and> spawnInterval gPaused = 650 \<and> lives gPaused = 3
   \<and> score gPaused = 0"
  using gTwoDrops_facts by (simp add: gPaused_def togglePause_def pauseGame_def)

text \<open>
  C10. While the game is paused a frame of the main loop changes no game state: the drops,
  score, lives, water meter, timeLeft and spawnInterval after \<open>loop\<close> are what they
  were. \<open>update\<close> is skipped, and the sort in \<open>render\<close> finds the drops already in
  order; only the frame's own time stamp and the request for the next frame are written.
\<close>

theorem paused_frame:
  assumes "reachable g" and "paused g"
  shows "drops (loop now dnow rnd g) = drops g
         \<and> score (loop now dnow rnd g) = score g
         \<and> lives (loop now dnow rnd g) = lives g
         \<and> waterPercent (loop now dnow rnd g) = waterPercent g
         \<and> timeLeft (loop now dnow rnd g) = timeLeft g
         \<and> spawnInterval (loop now dnow rnd g) = spawnInterval g
         \<and> loop now dnow rnd g = g\<lparr>lastFrame := now, framePending := True\<rparr>"
proof -
  have "sorted (map d_y (drops g))"
    using reachable_invariant [OF assms(1)] by (simp add: invariant_def)
  then have "sort_key d_y (drops g) = drops g" by (rule sort_key_id_if_sorted)
  then show ?thesis using assms(2) by (simp add: loop_def render_def Let_def)
qed

theorem paused_frame_witness:
  "reachable gPaused \<and> paused gPaused \<and> length (drops gPaused) = 2
   \<and> drops (loop 1736 5720 rndClean gPaused) = drops gPaused
   \<and> score (loop 1736 5720 rndClean gPaused) = 0
   \<and> lives (loop 1736 5720 rndClean gPaused) = 3
   \<and> waterPercent (loop 1736 5720 rndClean gPaused) = 0
   \<and> timeLeft (loop 1736 5720 rndClean gPaused) = 30
   \<and> spawnInterval (loop 1736 5720 rndClean gPaused) = 650"
  using paused_frame [OF gPaused_reachable, of 1736 5720 rndClean] gPaused_reachable gPaused_facts
  by simp

section \<open>Misses\<close>

text \<open>The sweep over the drops, drop by drop.\<close>

lemma sweep_Cons:
  "fst (sweep dt dnow w h (d # ds) wp) =
     (if fellOff h (moveDrop dt dnow d) then fst (sweep dt dnow w h ds wp)
      else bounce w (moveDrop dt dnow d) # fst (sweep dt dnow w h ds wp))"
  "snd (sweep dt dnow w h (d # ds) wp) =
     (if fellOff h (moveDrop dt dnow d) \<and> \<not> d_polluted (moveDrop dt dnow d)
      then max 0 (snd (sweep dt dnow w h ds wp) - 1.2) else snd (sweep dt dnow w h ds wp))"
  by (simp_all add: Let_def case_prod_beta)

lemma sweep_fst:
  "fst (sweep dt dnow w h ds wp) =
     map (bounce w) (filter (\<lambda>d. \<not> fellOff h d) (map (moveDrop dt dnow) ds))"
  by (induction ds) (simp_all add: sweep_Cons del: sweep.simps(2))

lemma max_step: "max 0 (max 0 (wp - 1.2 * real n) - 1.2) = max 0 (wp - 1.2 * real (Suc n))"
proof -
  have "real (Suc n) = real n + 1" by simp
  then show ?thesis unfolding max_def by (auto simp: algebra_simps)
qed

lemma sweep_snd:
  "snd (sweep dt dnow w h ds wp) =
     (if 0 \<le> wp
      then max 0 (wp - 1.2 * real (length (filter (\<lambda>d. fellOff h d \<and> \<not> d_polluted d)
                                          (map (moveDrop dt dnow) ds))))
      else snd (sweep dt dnow w h ds wp))"
proof (induction ds)
  case Nil
  then show ?case by simp
next
  case (Cons d ds)
  let ?n = "length (filter (\<lambda>d. fellOff h d \<and> \<not> d_polluted d) (map (moveDrop dt dnow) ds))"
  show ?case
  proof (cases "0 \<le> wp")
    case True
    then have IH: "snd (sweep dt dnow w h ds wp) = max 0 (wp - 1.2 * real ?n)"
      using Cons by simp
    show ?thesis
    proof (cases "fellOff h (moveDrop dt dnow d) \<and> \<not> d_polluted (moveDrop dt dnow d)")
      case t: True
      have "snd (sweep dt dnow w h (d # ds) wp) = max 0 (snd (sweep dt dnow w h ds wp) - 1.2)"
        using t by (simp add: sweep_Cons del: sweep.simps(2))
      also have "\<dots> = max 0 (max 0 (wp - 1.2 * real ?n) - 1.2)" by (simp only: IH)
      also have "\<dots> = max 0 (wp - 1.2 * real (Suc ?n))" by (rule max_step)
      finally show ?thesis using True t by (simp del: sweep.simps(2))
    next
      case f: False
      have "snd (sweep dt dnow w h (d # ds) wp) = snd (sweep dt dnow w h ds wp)"
        using f by (auto simp add: sweep_Cons simp del: sweep.simps(2))
      then show ?thesis using True f IH by (auto simp del: sweep.simps(2))
    qed
  next
    case False
    then show ?thesis by simp
  qed
qed

text \<open>
  C4, as the claim states it, fails: a polluted drop that falls past the bottom is removed
  from the list, but the water meter stays where it was (here at 12). Only a clean drop
  that is missed costs water.
\<close>

theorem polluted_miss_counterexample:
  "d_polluted (fallingDrop True 520)
   \<and> fellOff (canvas_h (gMidRound [fallingDrop True 520])) (moveDrop 0.016 5000 (fallingDrop True 520))
   \<and> waterPercent (gMidRound [fallingDrop True 520]) = 12
   \<and> drops (update 0.016 5000 rndClean (gMidRound [fallingDrop True 520])) = []
   \<and> waterPercent (update 0.016 5000 rndClean (gMidRound [fallingDrop True 520])) = 12"
  by (simp add: run_defs callback_defs)

text \<open>
  C4, amended. In every frame, each drop whose top edge, after the frame's motion, is
  more than 60 pixels below the canvas (\<open>y - size > canvas_h + 60\<close>) is removed from
  the drop list, and the others stay, in order. Each clean drop removed in this way
  lowers the water meter by 1.2, floored at 0; a polluted drop removed in this way
  leaves the meter unchanged.
\<close>

theorem update_misses:
  assumes "0 \<le> waterPercent g"
  shows "drops (update dt dnow rnd g) =
           map (bounce (canvas_w g))
             (filter (\<lambda>d. \<not> fellOff (canvas_h g) d)
                (map (moveDrop dt dnow) (drops (respawn dnow rnd g))))
       \<and> waterPercent (update dt dnow rnd g) =
           max 0 (waterPercent g
                  - 1.2 * real (length (filter (\<lambda>d. fellOff (canvas_h g) d \<and> \<not> d_polluted d)
                                         (map (moveDrop dt dnow) (drops (respawn dnow rnd g))))))"
  using assms by (simp add: update_drops update_waterPercent sweep_fst sweep_snd)

theorem update_misses_witness:
  "0 \<le> waterPercent (gMidRound [fallingDrop False 520, fallingDrop True 530, fallingDrop False 100])
   \<and> waterPercent (gMidRound [fallingDrop False 520, fallingDrop True 530, fallingDrop False 100]) = 12
   \<and> map d_birth (drops (update 0.016 5000 rndClean
        (gMidRound [fallingDrop False 520, fallingDrop True 530, fallingDrop False 100])))
       = [1000]
   \<and> waterPercent (update 0.016 5000 rndClean
        (gMidRound [fallingDrop False 520, fallingDrop True 530, fallingDrop False 100])) = 10.8"
  using update_misses [of "gMidRound [fallingDrop False 520, fallingDrop True 530, fallingDrop False 100]"
     "0.016" 5000 rndClean]
  by (simp add: run_defs callback_defs)

section \<open>New drops\<close>

lemma rand_range: "0 \<le> r \<Longrightarrow> r < 1 \<Longrightarrow> lo \<le> hi \<Longrightarrow> lo \<le> rand lo hi r \<and> rand lo hi r \<le> hi"
proof -
  assume r: "0 \<le> r" "r < 1" and lh: "lo \<le> hi"
  have "0 \<le> r * (hi - lo)" using r lh by simp
  moreover have "r * (hi - lo) \<le> 1 * (hi - lo)" using r lh by (intro mult_right_mono) simp_all
  ultimately show ?thesis by (simp add: rand_def)
qed

lemma speedMult_pos: "0 < optOrElse (difficultySettings k) cfg_dropSpeed (1::real)"
  by (cases k) (simp_all add: optOrElse_def orElse_def)

lemma createDrop_fields:
  "d_size (createDrop p dnow rnd g) = (if p then rand 24 35 (r_size rnd) else rand 18 28 (r_size rnd))"
  "d_x (createDrop p dnow rnd g) =
     rand (d_size (createDrop p dnow rnd g) * 2) (canvas_w g - d_size (createDrop p dnow rnd g) * 2) (r_x rnd)"
  "d_y (createDrop p dnow rnd g) = - d_size (createDrop p dnow rnd g) * 2"
  "d_speed (createDrop p dnow rnd g) =
     (if p then rand 40 60 (r_speed rnd) else rand 30 50 (r_speed rnd))
       * optOrElse (difficultySettings (currentDifficulty g)) cfg_dropSpeed 1"
  "d_polluted (createDrop p dnow rnd g) = p"
  by (simp_all add: createDrop_def Let_def)

lemma rndPolluted_unit: "unit_rands rndPolluted"
  by (simp add: run_defs unit_rands_def)

text \<open>
  C7, as the claim states it, fails on a narrow canvas: with a canvas 100 wide and a drop
  of size 29.5 the interval from \<open>2 * size\<close> to \<open>canvas_w - 2 * size\<close> is empty, and
  the drop is placed at \<open>x = 50\<close>, outside it on both sides.
\<close>

theorem createDrop_narrow_counterexample:
  "unit_rands rndPolluted \<and> canvas_w (initial 0 rectNarrow) = 100
   \<and> d_size (createDrop True 5000 rndPolluted (initial 0 rectNarrow)) = 29.5
   \<and> d_x (createDrop True 5000 rndPolluted (initial 0 rectNarrow)) = 50
   \<and> \<not> 2 * d_size (createDrop True 5000 rndPolluted (initial 0 rectNarrow))
        \<le> d_x (createDrop True 5000 rndPolluted (initial 0 rectNarrow))
   \<and> \<not> d_x (createDrop True 5000 rndPolluted (initial 0 rectNarrow))
        \<le> canvas_w (initial 0 rectNarrow)
            - 2 * d_size (createDrop True 5000 rndPolluted (initial 0 rectNarrow))"
  by (simp add: run_defs callback_defs)

text \<open>
  C7, amended. Every drop made by \<open>createDrop\<close> has a positive size (between 18 and
  35), starts above the canvas at \<open>y = -2 * size\<close>, has a positive downward
  speed, and carries the requested pollution status. Its \<open>x\<close> lies between
  \<open>2 * size\<close> and \<open>canvas_w - 2 * size\<close> whenever the canvas is at least four sizes
  wide, which every canvas of width 140 or more is.
\<close>

theorem createDrop_shape:
  assumes "unit_rands rnd"
  shows "0 < d_size (createDrop p dnow rnd g)
       \<and> 18 \<le> d_size (createDrop p dnow rnd g) \<and> d_size (createDrop p dnow rnd g) \<le> 35
       \<and> d_y (createDrop p dnow rnd g) = - 2 * d_size (createDrop p dnow rnd g)
       \<and> d_y (createDrop p dnow rnd g) < 0
       \<and> 0 < d_speed (createDrop p dnow rnd g)
       \<and> d_polluted (createDrop p dnow rnd g) = p
       \<and> (4 * d_size (createDrop p dnow rnd g) \<le> canvas_w g \<longrightarrow>
            2 * d_size (createDrop p dnow rnd g) \<le> d_x (createDrop p dnow rnd g)
          \<and> d_x (createDrop p dnow rnd g) \<le> canvas_w g - 2 * d_size (createDrop p dnow rnd g))
       \<and> (140 \<le> canvas_w g \<longrightarrow> 4 * d_size (createDrop p dnow rnd g) \<le> canvas_w g)"
proof -
  let ?d = "createDrop p dnow rnd g"
  have r: "0 \<le> r_size rnd" "r_size rnd < 1" "0 \<le> r_x rnd" "r_x rnd < 1"
    "0 \<le> r_speed rnd" "r_speed rnd < 1"
    using assms by (simp_all add: unit_rands_def)
  have sz: "18 \<le> d_size ?d \<and> d_size ?d \<le> 35"
    using rand_range [OF r(1,2), of 24 35] rand_range [OF r(1,2), of 18 28]
    by (simp add: createDrop_fields)
  have sp: "0 < (if p then rand 40 60 (r_speed rnd) else rand 30 50 (r_speed rnd))"
    using rand_range [OF r(5,6), of 40 60] rand_range [OF r(5,6), of 30 50] by simp
  have speed: "0 < d_speed ?d"
    unfolding createDrop_fields(4) using sp speedMult_pos by (rule mult_pos_pos)
  have x: "2 * d_size ?d \<le> d_x ?d \<and> d_x ?d \<le> canvas_w g - 2 * d_size ?d"
    if "4 * d_size ?d \<le> canvas_w g"
  proof -
    have "d_size ?d * 2 \<le> canvas_w g - d_size ?d * 2" using that by simp
    from rand_range [OF r(3,4) this] show ?thesis
      by (simp add: createDrop_fields(2) mult.commute)
  qed
  show ?thesis using sz speed x by (simp add: createDrop_fields(3,5))
qed

theorem createDrop_shape_witness:
  "unit_rands rndPolluted \<and> canvas_w gOneClean = 720
   \<and> d_size (createDrop True 5000 rndPolluted gOneClean) = 29.5
   \<and> d_x (createDrop True 5000 rndPolluted gOneClean) = 360
   \<and> d_y (createDrop True 5000 rndPolluted gOneClean) = - 59
   \<and> d_speed (createDrop True 5000 rndPolluted gOneClean) = 85
   \<and> d_polluted (createDrop True 5000 rndPolluted gOneClean)
   \<and> 2 * d_size (createDrop True 5000 rndPolluted gOneClean)
        \<le> d_x (createDrop True 5000 rndPolluted gOneClean)
   \<and> d_x (createDrop True 5000 rndPolluted gOneClean)
        \<le> canvas_w gOneClean - 2 * d_size (createDrop True 5000 rndPolluted gOneClean)"
  using createDrop_shape [OF rndPolluted_unit, of True 5000 gOneClean] rndPolluted_unit
  by (simp add: run_defs callback_defs)

section \<open>Round length\<close>

text \<open>
  C6. Starting a round should set \<open>timeLeft\<close> to the round time of the selected
  difficulty: 45 for easy, 30 for normal, 20 for hard. \<open>startRound\<close> stores that value
  and then calls \<open>startTimer\<close>, which overwrites it with the constant 30, so a round
  on easy or on hard starts with 30 seconds as well.
\<close>

theorem startRound_timeLeft:
  "map_option cfg_roundTime (difficultySettings Easy) = Some 45
   \<and> timeLeft (run [Difficulty Easy, StartRound 1000 rect0] (initial 0 rect0)) = 30
   \<and> map_option cfg_roundTime (difficultySettings Hard) = Some 20
   \<and> timeLeft (run [Difficulty Hard, StartRound 1000 rect0] (initial 0 rect0)) = 30"
  by (simp add: run_defs callback_defs)

section \<open>The end of a round\<close>

lemma gLastLife_facts:
  "running gLastLife \<and> timeLeft gLastLife = 30 \<and> lives gLastLife = 1
   \<and> length (drops gLastLife) = 1 \<and> d_polluted (drops gLastLife ! 0)
   \<and> hit 360 (-55) (drops gLastLife ! 0)
   \<and> tapPoint (Mouse 360 (-55)) rect0 gLastLife = Some (360, -55)"
  by (simp add: run_defs callback_defs hit_iff)

lemma gLastLife_reachable: "reachable gLastLife"
  unfolding gLastLife_def
  by (rule reachable_run [OF reach_initial]) (simp add: run_defs callback_defs hit_iff)

lemma gLastLife_tap:
  "\<not> running (handlePointer (Mouse 360 (-55)) rect0 gLastLife)
   \<and> timeLeft (handlePointer (Mouse 360 (-55)) rect0 gLastLife) = 30
   \<and> lives (handlePointer (Mouse 360 (-55)) rect0 gLastLife) = 0"
proof -
  note f = gLastLife_facts
  have last: "\<forall>j. 0 < j \<and> j < length (drops gLastLife)
                \<longrightarrow> \<not> hit 360 (-55) (drops gLastLife ! j)"
    using f by auto
  have r: "running gLastLife" and t: "tapPoint (Mouse 360 (-55)) rect0 gLastLife = Some (360, -55)"
    and i: "0 < length (drops gLastLife)" and h: "hit 360 (-55) (drops gLastLife ! 0)"
    using f by simp_all
  have "handlePointer (Mouse 360 (-55)) rect0 gLastLife = hitAt 0 gLastLife"
    using r t i h last by (rule handlePointer_hit)
  then show ?thesis using f by (simp add: hitAt_def checkGameOver_running)
qed

text \<open>
  C5, as the claim states it, fails: a round can end before its timer reaches zero. In
  this run of a hard round the second tap on a polluted drop takes the last life, and
  \<open>checkGameOver\<close> ends the round with all 30 seconds still on the timer.
\<close>

theorem early_end_counterexample:
  "reachable gLastLife \<and> running gLastLife \<and> timeLeft gLastLife = 30
   \<and> \<not> running (handlePointer (Mouse 360 (-55)) rect0 gLastLife)
   \<and> timeLeft (handlePointer (Mouse 360 (-55)) rect0 gLastLife) = 30
   \<and> lives (handlePointer (Mouse 360 (-55)) rect0 gLastLife) = 0"
  using gLastLife_reachable gLastLife_facts gLastLife_tap by simp

text \<open>Ticks that leave time on the timer only count it down.\<close>

lemma run_ticks:
  "running g \<Longrightarrow> int n < timeLeft g \<Longrightarrow>
     run (replicate n Tick) g = g\<lparr>timeLeft := timeLeft g - int n\<rparr>"
proof (induction n arbitrary: g)
  case 0
  then show ?case by simp
next
  case (Suc n)
  have t: "timerTick g = g\<lparr>timeLeft := timeLeft g - 1\<rparr>"
    using Suc.prems by (simp add: timerTick_def Let_def)
  have "run (replicate n Tick) (timerTick g)
          = (timerTick g)\<lparr>timeLeft := timeLeft (timerTick g) - int n\<rparr>"
    using Suc.prems by (intro Suc.IH) (simp_all add: t)
  then show ?case by (simp add: t)
qed

lemma enabled_ticks:
  "running g \<Longrightarrow> intervals g \<noteq> [] \<Longrightarrow> int n < timeLeft g \<Longrightarrow>
     enabled_all (replicate n Tick) g"
proof (induction n arbitrary: g)
  case 0
  then show ?case by simp
next
  case (Suc n)
  have t: "timerTick g = g\<lparr>timeLeft := timeLeft g - 1\<rparr>"
    using Suc.prems by (simp add: timerTick_def Let_def)
  have "enabled_all (replicate n Tick) (timerTick g)"
    using Suc.prems by (intro Suc.IH) (simp_all add: t)
  then show ?case using Suc.prems by simp
qed

lemma gOnePolluted_timer:
  "running gOnePolluted \<and> intervals gOnePolluted \<noteq> [] \<and> timeLeft gOnePolluted = 30"
  by (simp add: run_defs callback_defs)

lemma gLastSecond_facts:
  "reachable gLastSecond \<and> running gLastSecond \<and> timeLeft gLastSecond = 1"
proof -
  note f = gOnePolluted_timer
  have "reachable gLastSecond"
    unfolding gLastSecond_def using f
    by (intro reachable_run [OF gOnePolluted_reachable] enabled_ticks) simp_all
  moreover have eq: "gLastSecond = gOnePolluted\<lparr>timeLeft := timeLeft gOnePolluted - int 29\<rparr>"
    unfolding gLastSecond_def using f by (intro run_ticks) simp_all
  moreover have "running gLastSecond \<and> timeLeft gLastSecond = 1"
    using f by (simp add: eq)
  ultimately show ?thesis by simp
qed

text \<open>
  C5, amended. A running round ends when a tick of the timer brings \<open>timeLeft\<close> to 0,
  and a tick ends it exactly then; it also ends earlier when a tap leaves no life or a
  full water meter, or when the game is reset. No other callback ends a running round:
  a round has ended after a callback if and only if the callback was such a tick, such a
  tap, or a reset. (Starting a round while one is running restarts it and leaves the
  game running.)
\<close>

theorem round_end:
  assumes "reachable g" and "running g"
  shows "(\<not> running (step e g) \<longleftrightarrow>
            (e = Tick \<and> timeLeft g \<le> 1)
          \<or> (\<exists>evt rect. e = Pointer evt rect
                \<and> (lives (step e g) \<le> 0 \<or> 100 \<le> waterPercent (step e g)))
          \<or> (\<exists>rect. e = ResetGame rect))
       \<and> (timeLeft g \<le> 1 \<longrightarrow> \<not> running (step Tick g) \<and> timeLeft (step Tick g) = 0)
       \<and> (1 < timeLeft g \<longrightarrow> running (step Tick g) \<and> timeLeft (step Tick g) = timeLeft g - 1)
       \<and> (lives (step (Pointer evt rect) g) \<le> 0
            \<or> 100 \<le> waterPercent (step (Pointer evt rect) g)
          \<longrightarrow> \<not> running (step (Pointer evt rect) g))
       \<and> \<not> running (step (ResetGame rect) g)"
proof -
  have inv: "waterPercent g < 100" "1 \<le> lives g"
    using reachable_invariant [OF assms(1)] assms(2) by (simp_all add: invariant_def)
  have tick: "(timeLeft g \<le> 1 \<longrightarrow> \<not> running (timerTick g) \<and> timeLeft (timerTick g) = 0)
       \<and> (1 < timeLeft g \<longrightarrow> running (timerTick g) \<and> timeLeft (timerTick g) = timeLeft g - 1)"
    using assms(2) by (simp add: timerTick_def Let_def)
  have ptr: "running (handlePointer evt rect g) \<longleftrightarrow>
               \<not> (lives (handlePointer evt rect g) \<le> 0
                  \<or> 100 \<le> waterPercent (handlePointer evt rect g))" for evt rect
  proof (cases "tapPoint evt rect g")
    case None
    then show ?thesis using assms(2) inv by (simp add: handlePointer_cases)
  next
    case (Some pt)
    obtain px py where pt: "pt = (px, py)" by (cases pt)
    show ?thesis
    proof (cases "scanHit px py (drops g) (length (drops g))")
      case None
      then show ?thesis using assms(2) inv Some pt by (simp add: handlePointer_cases)
    next
      case (Some i)
      then have "handlePointer evt rect g = hitAt i g"
        using assms(2) \<open>tapPoint evt rect g = Some pt\<close> pt by (simp add: handlePointer_cases)
      then show ?thesis using assms(2) by (simp add: hitAt_def checkGameOver_running)
    qed
  qed
  have reset: "\<not> running (resetGame rect g)" for rect
    by (simp add: resetGame_def setupCanvas_def Let_def)
  have other: "running (startRound pnow rect g)" "running (togglePause pnow g)"
    "running (visibilityHidden g)" "running (setDifficulty k g)" "running (setupCanvas rect g)"
    "running (loop now dnow rnd g)" for pnow rect k now dnow rnd
    using assms(2)
    by (simp_all add: startRound_def setupCanvas_def togglePause_def pauseGame_def
          resumeGame_def visibilityHidden_def setDifficulty_def Let_def split: option.splits)
  have main: "\<not> running (step e g) \<longleftrightarrow>
            (e = Tick \<and> timeLeft g \<le> 1)
          \<or> (\<exists>evt rect. e = Pointer evt rect
                \<and> (lives (step e g) \<le> 0 \<or> 100 \<le> waterPercent (step e g)))
          \<or> (\<exists>rect. e = ResetGame rect)"
  proof (cases e)
    case Tick
    then show ?thesis using tick by auto
  next
    case (Pointer evt rect)
    then show ?thesis using ptr [of evt rect] by auto
  next
    case (ResetGame rect)
    then show ?thesis using reset by auto
  qed (use other in auto)
  show ?thesis using main tick ptr [of evt rect] reset [of rect] by simp
qed

theorem round_end_witness:
  "reachable gLastLife \<and> running gLastLife \<and> timeLeft gLastLife = 30
   \<and> \<not> running (step (Pointer (Mouse 360 (-55)) rect0) gLastLife)
   \<and> lives (step (Pointer (Mouse 360 (-55)) rect0) gLastLife) \<le> 0
   \<and> running (step Tick gLastLife) \<and> timeLeft (step Tick gLastLife) = 29
   \<and> \<not> running (step (ResetGame rect0) gLastLife)
   \<and> reachable gLastSecond \<and> running gLastSecond \<and> timeLeft gLastSecond = 1
   \<and> \<not> running (step Tick gLastSecond) \<and> timeLeft (step Tick gLastSecond) = 0"
proof -
  have a: "running gLastLife" "timeLeft gLastLife = 30" using gLastLife_facts by simp_all
  have b: "reachable gLastSecond" "running gLastSecond" "timeLeft gLastSecond = 1"
    using gLastSecond_facts by simp_all
  show ?thesis
    using round_end [OF gLastLife_reachable a(1), of Tick "Mouse 360 (-55)" rect0]
      round_end [OF b(1,2), of Tick "Mouse 360 (-55)" rect0]
      gLastLife_reachable a b gLastLife_tap
    by simp
qed

section \<open>The spawn interval\<close>

lemma gHardFive_facts:
  "running gHardFive \<and> \<not> paused gHardFive \<and> framePending gHardFive
   \<and> currentDifficulty gHardFive = Hard
   \<and> spawnInterval gHardFive = 600 \<and> lastSpawn gHardFive = 5000 \<and> timeLeft gHardFive = 25"
  by (simp add: run_defs callback_defs)

lemma gHardFive_reachable: "reachable gHardFive"
  unfolding gHardFive_def
  by (rule reachable_run [OF reach_initial]) (simp add: run_defs callback_defs)

lemma update_spawnInterval:
  "spawnInterval (update dt dnow rnd g) = spawnInterval (respawn dnow rnd g)"
  "lastSpawn (update dt dnow rnd g) = lastSpawn (respawn dnow rnd g)"
  by (simp_all add: update_def Let_def split: prod.splits)

lemma loop_spawnInterval:
  "\<not> paused g \<Longrightarrow> spawnInterval (loop now dnow rnd g) = spawnInterval (respawn dnow rnd g)"
  "\<not> paused g \<Longrightarrow> lastSpawn (loop now dnow rnd g) = lastSpawn (respawn dnow rnd g)"
  by (simp_all add: loop_def render_def Let_def update_spawnInterval respawn_def spawnDrop_def)

lemma loop_framePending: "framePending (loop now dnow rnd g)"
  by (simp add: loop_def render_def Let_def)

lemma cfg_nonzero:
  assumes "difficultySettings k = Some st"
  shows "optOrElse (Some st) cfg_spawnInterval 700 = cfg_spawnInterval st"
    and "optOrElse (Some st) cfg_spawnMin 300 = cfg_spawnMin st"
    and "optOrElse (Some st) cfg_spawnAccel 12 = cfg_spawnAccel st"
    and "optOrElse (Some st) cfg_roundTime 30 = cfg_roundTime st"
    and "cfg_spawnMin st \<le> cfg_spawnInterval st"
  using assms by (cases k; auto simp: optOrElse_def orElse_def)+

lemma gSwitched_facts:
  "running gSwitched \<and> \<not> paused gSwitched \<and> framePending gSwitched
   \<and> currentDifficulty gSwitched = Easy
   \<and> spawnInterval gSwitched = 510 \<and> lastSpawn gSwitched = 10000 \<and> timeLeft gSwitched = 25"
  using gHardFive_facts
  by (simp add: gSwitched_def loop_spawnInterval loop_framePending respawn_def spawnDrop_def
        optOrElse_def orElse_def setDifficulty_def Let_def)

lemma gSwitched_reachable: "reachable gSwitched"
  unfolding gSwitched_def
  by (rule reachable_run [OF gHardFive_reachable])
     (use gHardFive_facts in \<open>simp add: rndClean_def unit_rands_def\<close>)

text \<open>
  C9, as the claim states it, fails: the difficulty buttons work during a round, and the
  spawn interval is only recomputed at the next spawn. Here a hard round has brought the
  interval down to 510, the player switches to easy, whose \<open>spawnMin\<close> is 520, and the
  next frame, which spawns nothing, leaves the interval at 510.
\<close>

theorem spawnInterval_switch_counterexample:
  "reachable gSwitched \<and> running gSwitched \<and> \<not> paused gSwitched
   \<and> currentDifficulty gSwitched = Easy
   \<and> map_option cfg_spawnMin (difficultySettings (currentDifficulty gSwitched)) = Some 520
   \<and> spawnInterval (update 0.016 10016 rndClean gSwitched) = 510
   \<and> spawnInterval (loop 6032 10016 rndClean gSwitched) = 510"
  using gSwitched_reachable gSwitched_facts
  by (simp add: update_spawnInterval loop_spawnInterval respawn_def)

text \<open>
  C9, amended. Whenever \<open>update\<close> spawns a drop it sets the spawn interval to
  \<open>max(spawnMin, spawnInterval - elapsed * spawnAccel)\<close> of the current difficulty's
  settings, with \<open>elapsed = roundTime - timeLeft\<close>, so the interval is then at least
  \<open>spawnMin\<close>; an \<open>update\<close> that spawns nothing leaves the interval as it was. Hence
  an update step keeps the interval at or above the current \<open>spawnMin\<close> if it was so
  before, and \<open>startRound\<close> starts it there.
\<close>

theorem spawnInterval_floor:
  assumes "difficultySettings (currentDifficulty g) = Some st"
  shows "(spawnInterval g < dnow - lastSpawn g \<longrightarrow>
            spawnInterval (update dt dnow rnd g)
              = max (cfg_spawnMin st)
                    (cfg_spawnInterval st
                       - real_of_int (cfg_roundTime st - timeLeft g) * cfg_spawnAccel st)
          \<and> cfg_spawnMin st \<le> spawnInterval (update dt dnow rnd g))
       \<and> (\<not> spawnInterval g < dnow - lastSpawn g \<longrightarrow>
            spawnInterval (update dt dnow rnd g) = spawnInterval g)
       \<and> (cfg_spawnMin st \<le> spawnInterval g \<longrightarrow>
            cfg_spawnMin st \<le> spawnInterval (update dt dnow rnd g))
       \<and> cfg_spawnMin st \<le> spawnInterval (startRound pnow rect g)"
  using assms cfg_nonzero [OF assms]
  by (simp add: update_spawnInterval respawn_def spawnDrop_def Let_def startRound_def
        setupCanvas_def)

theorem spawnInterval_floor_witness:
  "difficultySettings (currentDifficulty gHardFive) = difficultySettings Hard
   \<and> spawnInterval gHardFive = 600 \<and> lastSpawn gHardFive = 5000 \<and> timeLeft gHardFive = 25
   \<and> spawnInterval (update 0.05 10000 rndClean gHardFive) = 510
   \<and> 220 \<le> spawnInterval (update 0.05 10000 rndClean gHardFive)"
  using spawnInterval_floor [of gHardFive "the (difficultySettings Hard)" 10000 "0.05" rndClean]
    gHardFive_facts
  by simp

end
